theory Spec2Isabelle
  imports Main
begin

section \<open>RunLogger: execution-order bookkeeping for nested runs\<close>

text \<open>
  The class \<open>RunLogger\<close> of \<^verbatim>\<open>tracing-examples/rest/rest.ipynb\<close> keeps two dictionaries:
  \<^verbatim>\<open>_run_map\<close> (run id to an integer) and \<^verbatim>\<open>_parents\<close> (run id to parent run id).
  \<^verbatim>\<open>_get_execution_order\<close> is called by \<^verbatim>\<open>post_run\<close> when a run begins,
  \<^verbatim>\<open>_update_execution_order\<close> by \<^verbatim>\<open>patch_run\<close> when a run ends. Both mutate the
  dictionaries in place; the model passes the object in and returns it updated. A failed
  dictionary lookup raises \<^verbatim>\<open>KeyError\<close>; the mutations made before the raise stay.
\<close>

subsection \<open>Data\<close>

datatype error = KeyError string

record RunLogger =
  run_map :: "string \<rightharpoonup> int"
  parents :: "string \<rightharpoonup> string"

text \<open>\<^verbatim>\<open>__init__\<close>: both dictionaries start empty.\<close>

definition RunLogger_init :: RunLogger where
  "RunLogger_init = \<lparr>run_map = Map.empty, parents = Map.empty\<rparr>"

text \<open>\<^verbatim>\<open>d.get(k, default)\<close>\<close>

definition dict_get :: "('k \<rightharpoonup> 'v) \<Rightarrow> 'k \<Rightarrow> 'v \<Rightarrow> 'v" where
  "dict_get d k dflt = (case d k of Some v \<Rightarrow> v | None \<Rightarrow> dflt)"

subsection \<open>The two methods\<close>

text \<open>
  The common tail of \<^verbatim>\<open>_get_execution_order\<close>:
  \<^verbatim>\<open>self._run_map[run_id] = execution_order; return execution_order\<close>.
\<close>

definition store_order :: "RunLogger \<Rightarrow> string \<Rightarrow> int \<Rightarrow> int \<times> RunLogger" where
  "store_order self run_id execution_order =
     (execution_order, self\<lparr>run_map := (run_map self)(run_id \<mapsto> execution_order)\<rparr>)"

text \<open>
  \<^verbatim>\<open>
  def _get_execution_order(self, run_id: str, parent_run_id: Optional[str] = None) -> int:
      if parent_run_id:
          self._parents[run_id] = parent_run_id
          execution_order = self._run_map.get(parent_run_id, 0)
          execution_order += 1
          self._run_map[parent_run_id] = execution_order
      else:
          execution_order = 1
      self._run_map[run_id] = execution_order
      return execution_order
  \<close>
  The test \<^verbatim>\<open>if parent_run_id:\<close> is Python truthiness: \<^verbatim>\<open>None\<close> and the empty string
  both take the \<^verbatim>\<open>else\<close> branch.
\<close>

definition get_execution_order :: "RunLogger \<Rightarrow> string \<Rightarrow> string option \<Rightarrow> int \<times> RunLogger" where
  "get_execution_order self run_id parent_run_id =
     (case parent_run_id of
        Some p \<Rightarrow>
          if p \<noteq> [] then
            (let self1 = self\<lparr>parents := (parents self)(run_id \<mapsto> p)\<rparr>;
                 execution_order = dict_get (run_map self1) p 0 + 1;
                 self2 = self1\<lparr>run_map := (run_map self1)(p \<mapsto> execution_order)\<rparr>
             in store_order self2 run_id execution_order)
          else store_order self run_id 1
      | None \<Rightarrow> store_order self run_id 1)"

text \<open>
  \<^verbatim>\<open>
  def _update_execution_order(self, run_id: str) -> None:
      exec_order = self._run_map[run_id]
      parent_run_id = self._parents.pop(run_id, None)
      if parent_run_id:
          self._run_map[parent_run_id] = max(exec_order, self._run_map[parent_run_id])
  \<close>
  The first lookup raises before anything is changed. The second lookup is evaluated
  after the \<^verbatim>\<open>pop\<close>, so when it raises the parent link is already gone.
\<close>

definition update_execution_order :: "RunLogger \<Rightarrow> string \<Rightarrow> (error + unit) \<times> RunLogger" where
  "update_execution_order self run_id =
     (case run_map self run_id of
        None \<Rightarrow> (Inl (KeyError run_id), self)
      | Some exec_order \<Rightarrow>
          (let parent_run_id = parents self run_id;
               self1 = self\<lparr>parents := (parents self)(run_id := None)\<rparr>
           in case parent_run_id of
                Some p \<Rightarrow>
                  if p \<noteq> [] then
                    (case run_map self1 p of
                       None \<Rightarrow> (Inl (KeyError p), self1)
                     | Some v \<Rightarrow> (Inr (), self1\<lparr>run_map := (run_map self1)(p \<mapsto> max exec_order v)\<rparr>))
                  else (Inr (), self1)
              | None \<Rightarrow> (Inr (), self1)))"

subsection \<open>Sequences of calls\<close>

text \<open>
  A caller's use of one logger is a sequence of calls: \<open>Begin run_id parent_run_id\<close> is
  what \<^verbatim>\<open>post_run\<close> does to the logger before its HTTP request, \<open>End run_id\<close> what
  \<^verbatim>\<open>patch_run\<close> does. A call that raises leaves the logger as it was at the raise, and
  the logger (a notebook global) stays usable afterwards, so a sequence goes on after an
  error.
\<close>

datatype call = Begin string "string option" | End string

fun step :: "call \<Rightarrow> RunLogger \<Rightarrow> (error + int option) \<times> RunLogger" where
  "step (Begin run_id parent_run_id) s =
     (case get_execution_order s run_id parent_run_id of (k, s') \<Rightarrow> (Inr (Some k), s'))"
| "step (End run_id) s =
     (case update_execution_order s run_id of
        (Inl e, s') \<Rightarrow> (Inl e, s')
      | (Inr u, s') \<Rightarrow> (Inr None, s'))"

fun exec :: "call list \<Rightarrow> RunLogger \<Rightarrow> RunLogger" where
  "exec [] s = s"
| "exec (c # cs) s = exec cs (snd (step c s))"

text \<open>The run id a call is about, and the parent whose entry the call may write.\<close>

fun call_run_id :: "call \<Rightarrow> string" where
  "call_run_id (Begin run_id parent_run_id) = run_id"
| "call_run_id (End run_id) = run_id"

fun direct_parent :: "RunLogger \<Rightarrow> call \<Rightarrow> string option" where
  "direct_parent s (Begin run_id parent_run_id) = parent_run_id"
| "direct_parent s (End run_id) = parents s run_id"

text \<open>\<open>begins x c\<close>: the call \<open>c\<close> is a begin of run id \<open>x\<close>.\<close>

fun begins :: "string \<Rightarrow> call \<Rightarrow> bool" where
  "begins x (Begin run_id parent_run_id) = (run_id = x)"
| "begins x (End run_id) = False"

text \<open>\<open>mentions x c\<close>: the call \<open>c\<close> passes \<open>x\<close> to a begin, as run id or as parent.\<close>

fun mentions :: "string \<Rightarrow> call \<Rightarrow> bool" where
  "mentions x (Begin run_id parent_run_id) = (run_id = x \<or> parent_run_id = Some x)"
| "mentions x (End run_id) = False"

text \<open>What each call of a sequence returned or raised, in call order.\<close>

fun outcomes :: "call list \<Rightarrow> RunLogger \<Rightarrow> (error + int option) list" where
  "outcomes [] s = []"
| "outcomes (c # cs) s = fst (step c s) # outcomes cs (snd (step c s))"

text \<open>
  The link invariant of a logger that was only ever used through the two methods: a
  recorded parent is a non-empty id, and both ends of the link have a counter entry.
\<close>

definition linked :: "RunLogger \<Rightarrow> bool" where
  "linked s = (\<forall>r p. parents s r = Some p \<longrightarrow> p \<noteq> [] \<and> run_map s r \<noteq> None \<and> run_map s p \<noteq> None)"

subsection \<open>Begin calls under one parent\<close>

text \<open>\<open>begins_under p c\<close>: the call \<open>c\<close> is a begin that passes \<open>p\<close> as parent.\<close>

fun begins_under :: "string \<Rightarrow> call \<Rightarrow> bool" where
  "begins_under p (Begin run_id parent_run_id) = (parent_run_id = Some p)"
| "begins_under p (End run_id) = False"

text \<open>
  \<open>apart_from p s c\<close>: in state \<open>s\<close> the call \<open>c\<close> is for another parent and is not about
  \<open>p\<close> itself: a begin of another run id under another parent (or none), or the end of a
  run whose recorded parent is not \<open>p\<close>.
\<close>

fun apart_from :: "string \<Rightarrow> RunLogger \<Rightarrow> call \<Rightarrow> bool" where
  "apart_from p s (Begin run_id parent_run_id) = (parent_run_id \<noteq> Some p \<and> run_id \<noteq> p)"
| "apart_from p s (End run_id) = (parents s run_id \<noteq> Some p)"

text \<open>A sequence made of begin calls under \<open>p\<close> and, between them, calls apart from \<open>p\<close>.\<close>

fun sibling_trace :: "string \<Rightarrow> call list \<Rightarrow> RunLogger \<Rightarrow> bool" where
  "sibling_trace p [] s = True"
| "sibling_trace p (c # cs) s =
     ((begins_under p c \<or> apart_from p s c) \<and> sibling_trace p cs (snd (step c s)))"

text \<open>The orders returned by the begin calls under \<open>p\<close> of a sequence, in call order.\<close>

fun orders_under :: "string \<Rightarrow> call list \<Rightarrow> RunLogger \<Rightarrow> int list" where
  "orders_under p [] s = []"
| "orders_under p (Begin run_id parent_run_id # cs) s =
     (if parent_run_id = Some p
      then fst (get_execution_order s run_id parent_run_id)
             # orders_under p cs (snd (step (Begin run_id parent_run_id) s))
      else orders_under p cs (snd (step (Begin run_id parent_run_id) s)))"
| "orders_under p (End run_id # cs) s = orders_under p cs (snd (step (End run_id) s))"

section \<open>Properties\<close>

subsection \<open>Single calls\<close>

lemma get_execution_order_root:
  "get_execution_order s r None = (1, s\<lparr>run_map := (run_map s)(r \<mapsto> 1)\<rparr>)"
  by (simp add: get_execution_order_def store_order_def)

lemma get_execution_order_empty_parent:
  "get_execution_order s r (Some []) = (1, s\<lparr>run_map := (run_map s)(r \<mapsto> 1)\<rparr>)"
  by (simp add: get_execution_order_def store_order_def)

lemma update_no_parent:
  assumes "run_map s r = Some e" and "parents s r = None"
  shows "update_execution_order s r = (Inr (), s)"
proof -
  have "(parents s)(r := None) = parents s"
    using assms(2) by (simp add: fun_upd_idem)
  then show ?thesis
    using assms by (simp add: update_execution_order_def Let_def)
qed

lemma update_with_parent:
  assumes "run_map s r = Some e" and "parents s r = Some p" and "p \<noteq> []" and "run_map s p = Some c"
  shows "update_execution_order s r =
     (Inr (), s\<lparr>parents := (parents s)(r := None), run_map := (run_map s)(p \<mapsto> max e c)\<rparr>)"
  using assms by (simp add: update_execution_order_def Let_def)

subsection \<open>What one call does to each table\<close>

lemma fst_begin:
  "fst (get_execution_order s r par) =
     (case par of Some p \<Rightarrow> if p \<noteq> [] then dict_get (run_map s) p 0 + 1 else 1 | None \<Rightarrow> 1)"
  by (simp add: get_execution_order_def store_order_def Let_def split: option.splits)

lemma run_map_begin:
  "run_map (snd (get_execution_order s r par)) x =
     (if x = r then Some (fst (get_execution_order s r par))
      else if par = Some x \<and> x \<noteq> [] then Some (dict_get (run_map s) x 0 + 1)
      else run_map s x)"
  by (auto simp add: get_execution_order_def store_order_def Let_def split: option.splits)

lemma parents_begin:
  "parents (snd (get_execution_order s r par)) x =
     (if x = r \<and> par \<noteq> None \<and> par \<noteq> Some [] then par else parents s x)"
  by (auto simp add: get_execution_order_def store_order_def Let_def split: option.splits)

lemma run_map_end:
  "run_map (snd (update_execution_order s r)) x =
     (case run_map s r of
        None \<Rightarrow> run_map s x
      | Some e \<Rightarrow>
          (case parents s r of
             None \<Rightarrow> run_map s x
           | Some p \<Rightarrow>
               if p \<noteq> [] \<and> x = p
               then (case run_map s p of None \<Rightarrow> None | Some v \<Rightarrow> Some (max e v))
               else run_map s x))"
  by (auto simp add: update_execution_order_def Let_def split: option.splits)

lemma parents_end:
  "parents (snd (update_execution_order s r)) x =
     (if x = r \<and> run_map s r \<noteq> None then None else parents s x)"
  by (auto simp add: update_execution_order_def Let_def split: option.splits)

lemma snd_step_Begin: "snd (step (Begin r par) s) = snd (get_execution_order s r par)"
  by (simp split: prod.splits)

lemma snd_step_End: "snd (step (End r) s) = snd (update_execution_order s r)"
  by (simp split: prod.splits sum.splits)

lemma run_map_step_frame:
  "x \<noteq> call_run_id c \<Longrightarrow> direct_parent s c \<noteq> Some x \<Longrightarrow> run_map (snd (step c s)) x = run_map s x"
  by (cases c) (auto simp only: snd_step_Begin snd_step_End run_map_begin run_map_end call_run_id.simps direct_parent.simps split: option.splits if_splits)

subsection \<open>Facts kept along a sequence of calls\<close>

lemma linked_init: "linked RunLogger_init"
  by (simp add: linked_def RunLogger_init_def)

lemma linkedD:
  "linked s \<Longrightarrow> parents s r = Some p \<Longrightarrow> p \<noteq> [] \<and> run_map s r \<noteq> None \<and> run_map s p \<noteq> None"
  unfolding linked_def by blast

lemma run_map_present_step: "run_map s x \<noteq> None \<Longrightarrow> run_map (snd (step c s)) x \<noteq> None"
  by (cases c) (auto simp only: snd_step_Begin snd_step_End run_map_begin run_map_end split: option.splits if_splits)

lemma linked_step:
  assumes "linked s"
  shows "linked (snd (step c s))"
  unfolding linked_def
proof (intro allI impI)
  fix r p
  assume link: "parents (snd (step c s)) r = Some p"
  show "p \<noteq> [] \<and> run_map (snd (step c s)) r \<noteq> None \<and> run_map (snd (step c s)) p \<noteq> None"
  proof (cases c)
    case (Begin r' par)
    show ?thesis
    proof (cases "r = r' \<and> par \<noteq> None \<and> par \<noteq> Some []")
      case True
      with link Begin have "par = Some p"
        by (simp add: snd_step_Begin parents_begin del: step.simps)
      with True show ?thesis
        unfolding Begin snd_step_Begin by (auto simp add: run_map_begin)
    next
      case False
      with link Begin have "parents s r = Some p"
        by (auto simp add: snd_step_Begin parents_begin simp del: step.simps)
      from linkedD [OF assms this] show ?thesis
        using run_map_present_step [of s _ c] by blast
    qed
  next
    case (End r')
    from link have "parents s r = Some p"
      unfolding End snd_step_End by (simp add: parents_end split: if_splits)
    from linkedD [OF assms this] show ?thesis
      using run_map_present_step [of s _ c] by blast
  qed
qed

lemma linked_exec: "linked s \<Longrightarrow> linked (exec cs s)"
  by (induction cs arbitrary: s) (simp_all add: linked_step)

lemma run_map_present_exec: "run_map s x \<noteq> None \<Longrightarrow> run_map (exec cs s) x \<noteq> None"
proof (induction cs arbitrary: s)
  case Nil
  then show ?case by simp
next
  case (Cons c cs)
  from Cons.prems have "run_map (snd (step c s)) x \<noteq> None"
    by (rule run_map_present_step)
  then have "run_map (exec cs (snd (step c s))) x \<noteq> None"
    by (rule Cons.IH)
  then show ?case by simp
qed

lemma run_map_absent_step:
  "run_map s x = None \<Longrightarrow> \<not> mentions x c \<Longrightarrow> run_map (snd (step c s)) x = None"
  by (cases c) (auto simp add: snd_step_Begin snd_step_End run_map_begin run_map_end simp del: step.simps split: option.splits if_splits)

lemma run_map_absent_exec:
  "run_map s x = None \<Longrightarrow> list_all (\<lambda>c. \<not> mentions x c) cs \<Longrightarrow> run_map (exec cs s) x = None"
  by (induction cs arbitrary: s) (simp_all add: run_map_absent_step del: step.simps)

lemma counter_mono_step:
  "\<not> begins p c \<Longrightarrow> dict_get (run_map s) p 0 \<le> dict_get (run_map (snd (step c s))) p 0"
  by (cases c) (auto simp add: dict_get_def snd_step_Begin snd_step_End run_map_begin run_map_end simp del: step.simps split: option.splits if_splits)

lemma counter_mono_exec:
  "list_all (\<lambda>c. \<not> begins p c) cs \<Longrightarrow> dict_get (run_map s) p 0 \<le> dict_get (run_map (exec cs s)) p 0"
proof (induction cs arbitrary: s)
  case Nil
  then show ?case by simp
next
  case (Cons c cs)
  have "dict_get (run_map s) p 0 \<le> dict_get (run_map (snd (step c s))) p 0"
    using Cons.prems by (simp add: counter_mono_step del: step.simps)
  also have "\<dots> \<le> dict_get (run_map (exec cs (snd (step c s)))) p 0"
    using Cons.prems by (intro Cons.IH) simp
  finally show ?case by simp
qed

lemma parents_none_step:
  "parents s r = None \<Longrightarrow> \<not> begins r c \<Longrightarrow> parents (snd (step c s)) r = None"
  by (cases c) (auto simp add: snd_step_Begin snd_step_End parents_begin parents_end simp del: step.simps)

lemma parents_none_exec:
  "parents s r = None \<Longrightarrow> list_all (\<lambda>c. \<not> begins r c) cs \<Longrightarrow> parents (exec cs s) r = None"
  by (induction cs arbitrary: s) (simp_all add: parents_none_step del: step.simps)

lemma exec_append: "exec (xs @ ys) s = exec ys (exec xs s)"
  by (induction xs arbitrary: s) simp_all

lemma get_execution_order_child:
  "p \<noteq> [] \<Longrightarrow> get_execution_order s r (Some p) =
     (dict_get (run_map s) p 0 + 1,
      s\<lparr>parents := (parents s)(r \<mapsto> p),
        run_map := (run_map s)(p \<mapsto> dict_get (run_map s) p 0 + 1, r \<mapsto> dict_get (run_map s) p 0 + 1)\<rparr>)"
  by (simp add: get_execution_order_def store_order_def Let_def)

lemma run_map_present_after_begin:
  "run_map (exec (earlier @ Begin r par0 # later) s0) r \<noteq> None"
proof -
  have "run_map (snd (step (Begin r par0) (exec earlier s0))) r \<noteq> None"
    unfolding snd_step_Begin by (simp add: run_map_begin)
  then have "run_map (exec later (snd (step (Begin r par0) (exec earlier s0)))) r \<noteq> None"
    by (rule run_map_present_exec)
  then show ?thesis
    by (simp add: exec_append del: step.simps)
qed

subsection \<open>The counter of one parent\<close>

lemma step_Begin_eq:
  "step (Begin r par) s =
     (Inr (Some (fst (get_execution_order s r par))), snd (get_execution_order s r par))"
  by (simp split: prod.splits)

lemma counter_after_begin:
  "dict_get (run_map (snd (get_execution_order s r par))) r 0 = fst (get_execution_order s r par)"
  by (simp add: dict_get_def run_map_begin)

lemma order_after_mid:
  assumes "p \<noteq> []" and "list_all (\<lambda>c. \<not> begins p c) mid"
  shows "dict_get (run_map s) p 0 < fst (get_execution_order (exec mid s) x (Some p))"
proof -
  have "dict_get (run_map s) p 0 \<le> dict_get (run_map (exec mid s)) p 0"
    using assms(2) by (rule counter_mono_exec)
  then show ?thesis
    using assms(1) by (simp add: fst_begin)
qed

lemma counter_begin_under:
  "p \<noteq> [] \<Longrightarrow> dict_get (run_map (snd (get_execution_order s r (Some p)))) p 0 = dict_get (run_map s) p 0 + 1"
  by (simp add: dict_get_def run_map_begin fst_begin)

lemma counter_apart_step:
  "apart_from p s c \<Longrightarrow> dict_get (run_map (snd (step c s))) p 0 = dict_get (run_map s) p 0"
  by (cases c) (auto simp add: dict_get_def snd_step_Begin snd_step_End run_map_begin run_map_end simp del: step.simps split: option.splits)

lemma upto_prepend:
  fixes c n :: int
  assumes "0 \<le> n"
  shows "(c + 1) # [c + 1 + 1 .. c + 1 + n] = [c + 1 .. c + 1 + n]"
proof -
  have "c + 1 \<le> c + 1 + n" using assms by simp
  then have "[c + 1 .. c + 1 + n] = (c + 1) # [c + 1 + 1 .. c + 1 + n]"
    by (rule upto_rec1)
  then show ?thesis by (rule sym)
qed

subsection \<open>Settled claims\<close>

text \<open>
  C4. A begin call without a parent returns 1 and stores 1 for the run id, whatever the
  logger held before; nothing else in the logger changes. An empty string as parent is
  treated the same way.
\<close>

theorem root_run_order_is_one:
  "fst (get_execution_order s r None) = 1
   \<and> run_map (snd (get_execution_order s r None)) r = Some 1
   \<and> snd (get_execution_order s r None) = s\<lparr>run_map := (run_map s)(r \<mapsto> 1)\<rparr>
   \<and> get_execution_order s r (Some []) = get_execution_order s r None"
  by (simp add: get_execution_order_root get_execution_order_empty_parent)

text \<open>
  C8. When the run id has an entry in the counter table and none in the parent table,
  \<^verbatim>\<open>_update_execution_order\<close> returns normally and the logger is exactly as before.
\<close>

theorem update_without_parent_is_noop:
  assumes "run_map s r = Some e" and "parents s r = None"
  shows "update_execution_order s r = (Inr (), s)"
  using assms by (rule update_no_parent)

theorem update_without_parent_is_noop_witness:
  "run_map (exec [Begin ''A'' None] RunLogger_init) ''A'' = Some 1
   \<and> parents (exec [Begin ''A'' None] RunLogger_init) ''A'' = None
   \<and> update_execution_order (exec [Begin ''A'' None] RunLogger_init) ''A''
       = (Inr (), exec [Begin ''A'' None] RunLogger_init)"
  using update_without_parent_is_noop [of "exec [Begin ''A'' None] RunLogger_init" "''A''" 1]
  by (simp add: get_execution_order_root RunLogger_init_def)

text \<open>
  C1, as amended. The claim promises the orders \<open>1..N\<close> whatever else happens in between.
  The counter of a parent starts from the entry the parent already has in the shared
  table (its own order, once the parent was begun), and a begin of the parent id itself
  overwrites that entry. What holds: for a non-empty parent id \<open>p\<close> and a sequence made of
  begin calls under \<open>p\<close> and of calls apart from \<open>p\<close>, the begin calls under \<open>p\<close> return
  \<open>k + 1, \<dots>, k + N\<close> in call order, where \<open>k\<close> is the entry of \<open>p\<close> before the sequence
  (0 when it has none) and \<open>N\<close> the number of such calls.
\<close>

theorem sibling_orders_consecutive:
  assumes "p \<noteq> []" and "sibling_trace p cs s"
  shows "orders_under p cs s =
           [dict_get (run_map s) p 0 + 1 .. dict_get (run_map s) p 0 + int (length (filter (begins_under p) cs))]"
  using assms(2)
proof (induction cs arbitrary: s)
  case Nil
  then show ?case by simp
next
  case (Cons c cs)
  define s' where "s' = snd (step c s)"
  define k where "k = dict_get (run_map s) p 0"
  define n where "n = int (length (filter (begins_under p) cs))"
  from Cons.prems have rest: "sibling_trace p cs s'" by (simp add: s'_def)
  have IH: "orders_under p cs s' = [dict_get (run_map s') p 0 + 1 .. dict_get (run_map s') p 0 + n]"
    unfolding n_def by (rule Cons.IH [OF rest])
  show ?case
  proof (cases "begins_under p c")
    case True
    then obtain r where c: "c = Begin r (Some p)" by (cases c) auto
    have cnt: "dict_get (run_map s') p 0 = k + 1"
      unfolding s'_def k_def c snd_step_Begin using assms(1) by (rule counter_begin_under)
    have fst_k: "fst (get_execution_order s r (Some p)) = k + 1"
      using assms(1) by (simp add: fst_begin k_def)
    have "orders_under p (c # cs) s = (k + 1) # orders_under p cs s'"
      unfolding c s'_def using fst_k by (simp del: step.simps)
    also have "\<dots> = (k + 1) # [k + 1 + 1 .. k + 1 + n]"
      using IH cnt by simp
    also have "\<dots> = [k + 1 .. k + 1 + n]"
      by (rule upto_prepend) (simp add: n_def)
    also have "k + 1 + n = k + int (length (filter (begins_under p) (c # cs)))"
      using True by (simp add: n_def)
    finally show ?thesis by (simp only: k_def)
  next
    case False
    with Cons.prems have ap: "apart_from p s c" by simp
    have cnt: "dict_get (run_map s') p 0 = k"
      unfolding s'_def k_def using ap by (rule counter_apart_step)
    have "orders_under p (c # cs) s = orders_under p cs s'"
      unfolding s'_def using False by (cases c) (simp_all del: step.simps)
    also have "\<dots> = [k + 1 .. k + n]"
      using IH cnt by simp
    also have "n = int (length (filter (begins_under p) (c # cs)))"
      using False by (simp add: n_def)
    finally show ?thesis by (simp only: k_def)
  qed
qed

text \<open>
  The parent \<open>A\<close> was begun as a root (entry 1); three children are begun under it while a
  second tree \<open>X\<close>, \<open>Y\<close> is begun and ended in between. The children get 2, 3, 4.
\<close>

theorem sibling_orders_consecutive_witness:
  "''A'' \<noteq> []
   \<and> sibling_trace ''A''
        [Begin ''B'' (Some ''A''), Begin ''X'' None, Begin ''Y'' (Some ''X''), End ''Y'',
         Begin ''C'' (Some ''A''), End ''X'', Begin ''D'' (Some ''A'')]
        (exec [Begin ''A'' None] RunLogger_init)
   \<and> orders_under ''A''
        [Begin ''B'' (Some ''A''), Begin ''X'' None, Begin ''Y'' (Some ''X''), End ''Y'',
         Begin ''C'' (Some ''A''), End ''X'', Begin ''D'' (Some ''A'')]
        (exec [Begin ''A'' None] RunLogger_init) = [2, 3, 4]"
  using sibling_orders_consecutive
    [of "''A''"
        "[Begin ''B'' (Some ''A''), Begin ''X'' None, Begin ''Y'' (Some ''X''), End ''Y'',
          Begin ''C'' (Some ''A''), End ''X'', Begin ''D'' (Some ''A'')]"
        "exec [Begin ''A'' None] RunLogger_init"]
  by (simp add: RunLogger_init_def get_execution_order_def update_execution_order_def
      store_order_def dict_get_def Let_def)

text \<open>
  The claim fails twice. After \<open>begin(A)\<close> the two children of \<open>A\<close> get 2 and 3, not 1
  and 2. And a begin of \<open>P\<close> itself under another parent \<open>Q\<close>, between the begins of the
  children of \<open>P\<close>, resets the counter of \<open>P\<close>: the children get 1, 2, 2.
\<close>

theorem sibling_orders_counterexample:
  "orders_under ''A'' [Begin ''A'' None, Begin ''B'' (Some ''A''), Begin ''C'' (Some ''A'')]
     RunLogger_init = [2, 3]
   \<and> orders_under ''P''
       [Begin ''X'' (Some ''P''), Begin ''Y'' (Some ''P''), Begin ''P'' (Some ''Q''), Begin ''Z'' (Some ''P'')]
       RunLogger_init = [1, 2, 2]"
  by (simp add: RunLogger_init_def get_execution_order_def store_order_def dict_get_def Let_def)

text \<open>
  C2, as amended. A begin of the parent id \<open>p\<close> itself overwrites the counter of \<open>p\<close>, so
  the claim needs that no such call comes in between. What holds: for a non-empty parent
  id \<open>p\<close>, when \<open>child\<close> is begun under \<open>p\<close> and later ended, and no call between the begin
  of \<open>child\<close> and the begin of a later sibling under \<open>p\<close> is a begin of run id \<open>p\<close>, the
  sibling's order is strictly greater than the order \<open>child\<close> was given.
\<close>

theorem later_sibling_gets_greater_order:
  assumes "p \<noteq> []"
    and "list_all (\<lambda>c. \<not> begins p c) before_end"
    and "list_all (\<lambda>c. \<not> begins p c) after_end"
  shows "fst (get_execution_order s child (Some p))
           < fst (get_execution_order
                   (exec (before_end @ End child # after_end) (snd (get_execution_order s child (Some p))))
                   sibling (Some p))"
proof -
  let ?s1 = "snd (get_execution_order s child (Some p))"
  have mid: "list_all (\<lambda>c. \<not> begins p c) (before_end @ End child # after_end)"
    using assms(2,3) by simp
  have "fst (get_execution_order s child (Some p)) = dict_get (run_map ?s1) p 0"
    using assms(1) by (simp add: fst_begin dict_get_def run_map_begin)
  also have "\<dots> < fst (get_execution_order (exec (before_end @ End child # after_end) ?s1) sibling (Some p))"
    using assms(1) mid by (rule order_after_mid)
  finally show ?thesis .
qed

theorem later_sibling_gets_greater_order_witness:
  "''A'' \<noteq> []
   \<and> list_all (\<lambda>c. \<not> begins ''A'' c) [Begin ''C'' (Some ''A'')]
   \<and> list_all (\<lambda>c. \<not> begins ''A'' c) [End ''C'']
   \<and> fst (get_execution_order (exec [Begin ''A'' None] RunLogger_init) ''B'' (Some ''A'')) = 2
   \<and> fst (get_execution_order
            (exec ([Begin ''C'' (Some ''A'')] @ End ''B'' # [End ''C''])
               (snd (get_execution_order (exec [Begin ''A'' None] RunLogger_init) ''B'' (Some ''A''))))
            ''D'' (Some ''A'')) = 4"
  using later_sibling_gets_greater_order
    [of "''A''" "[Begin ''C'' (Some ''A'')]" "[End ''C'']"
        "exec [Begin ''A'' None] RunLogger_init" "''B''" "''D''"]
  by (simp add: RunLogger_init_def get_execution_order_def update_execution_order_def
      store_order_def dict_get_def Let_def)

text \<open>
  \<open>C2\<close> is begun under \<open>P\<close> with order 2 and ended; then \<open>P\<close> itself is begun, which sets
  the entry of \<open>P\<close> back to 1; the sibling \<open>D\<close> begun afterwards gets 2 again.
\<close>

theorem later_sibling_counterexample:
  "outcomes
     [Begin ''C1'' (Some ''P''), Begin ''C2'' (Some ''P''), End ''C2'', Begin ''P'' None,
      Begin ''D'' (Some ''P'')]
     RunLogger_init
   = [Inr (Some 1), Inr (Some 2), Inr None, Inr (Some 1), Inr (Some 2)]"
  by (simp add: RunLogger_init_def get_execution_order_def update_execution_order_def
      store_order_def dict_get_def Let_def)

text \<open>
  C3. In a logger that was only used through the two methods, ending a run that has a
  recorded parent \<open>p\<close> returns normally, removes the link and sets the entry of \<open>p\<close> to the
  maximum of its current value and the stored value of the run: afterwards the entry of
  \<open>p\<close> is at least the stored order of the run, and no other entry of the counter table
  has changed.
\<close>

theorem end_raises_parent_counter:
  assumes "s = exec ops RunLogger_init" and "parents s r = Some p"
  shows "\<exists>e c. run_map s r = Some e \<and> run_map s p = Some c
           \<and> update_execution_order s r =
               (Inr (), s\<lparr>parents := (parents s)(r := None), run_map := (run_map s)(p \<mapsto> max c e)\<rparr>)
           \<and> run_map (snd (update_execution_order s r)) p = Some (max c e)
           \<and> e \<le> max c e
           \<and> (\<forall>x. x \<noteq> p \<longrightarrow> run_map (snd (update_execution_order s r)) x = run_map s x)"
proof -
  have "linked s"
    using assms(1) linked_init by (simp add: linked_exec)
  from linkedD [OF this assms(2)]
  obtain e c where e: "run_map s r = Some e" and c: "run_map s p = Some c" and p: "p \<noteq> []"
    by auto
  have upd: "update_execution_order s r =
     (Inr (), s\<lparr>parents := (parents s)(r := None), run_map := (run_map s)(p \<mapsto> max c e)\<rparr>)"
    using update_with_parent [OF e assms(2) p c] by (simp add: max.commute)
  show ?thesis
    using e c upd by simp
qed

text \<open>
  \<open>B\<close> is begun under the root \<open>A\<close> (both entries 2) and gets a child \<open>C\<close> (entry of \<open>B\<close>
  now 3). Ending \<open>B\<close> raises the entry of \<open>A\<close> from 2 to 3.
\<close>

theorem end_raises_parent_counter_witness:
  "parents (exec [Begin ''A'' None, Begin ''B'' (Some ''A''), Begin ''C'' (Some ''B'')] RunLogger_init) ''B''
     = Some ''A''
   \<and> run_map (exec [Begin ''A'' None, Begin ''B'' (Some ''A''), Begin ''C'' (Some ''B'')] RunLogger_init) ''A''
     = Some 2
   \<and> run_map (snd (update_execution_order
        (exec [Begin ''A'' None, Begin ''B'' (Some ''A''), Begin ''C'' (Some ''B'')] RunLogger_init) ''B'')) ''A''
     = Some 3"
  using end_raises_parent_counter
    [of "exec [Begin ''A'' None, Begin ''B'' (Some ''A''), Begin ''C'' (Some ''B'')] RunLogger_init"
        "[Begin ''A'' None, Begin ''B'' (Some ''A''), Begin ''C'' (Some ''B'')]" "''B''" "''A''"]
  by (simp add: RunLogger_init_def get_execution_order_def update_execution_order_def
      store_order_def dict_get_def Let_def)

text \<open>
  C5, as amended. The code keeps no record of which run ids were begun and never raises
  from \<^verbatim>\<open>_get_execution_order\<close>. What holds: a begin call for a run id that was begun
  before (so the id has a stored order) returns normally and overwrites. With a non-empty
  parent \<open>p\<close> it returns the entry of \<open>p\<close> plus one (1 when \<open>p\<close> has no entry), stores that
  value as the counter of \<open>p\<close> and as the order of the run id, and records \<open>p\<close> as the
  parent of the run id; nothing else changes. Without a parent (or with the empty string)
  it returns 1, stores 1 as the order of the run id, and changes nothing else: the parent
  link and every other entry stay.
\<close>

theorem repeated_begin_is_accepted:
  assumes "s = exec (earlier @ Begin r par0 # later) s0"
  shows "run_map s r \<noteq> None
         \<and> step (Begin r None) s = (Inr (Some 1), s\<lparr>run_map := (run_map s)(r \<mapsto> 1)\<rparr>)
         \<and> step (Begin r (Some [])) s = (Inr (Some 1), s\<lparr>run_map := (run_map s)(r \<mapsto> 1)\<rparr>)
         \<and> (p \<noteq> [] \<longrightarrow>
              step (Begin r (Some p)) s =
                (Inr (Some (dict_get (run_map s) p 0 + 1)),
                 s\<lparr>parents := (parents s)(r \<mapsto> p),
                   run_map := (run_map s)(p \<mapsto> dict_get (run_map s) p 0 + 1,
                                          r \<mapsto> dict_get (run_map s) p 0 + 1)\<rparr>))"
proof (intro conjI impI)
  show "run_map s r \<noteq> None"
    unfolding assms by (rule run_map_present_after_begin)
  show "step (Begin r None) s = (Inr (Some 1), s\<lparr>run_map := (run_map s)(r \<mapsto> 1)\<rparr>)"
    by (simp add: get_execution_order_root)
  show "step (Begin r (Some [])) s = (Inr (Some 1), s\<lparr>run_map := (run_map s)(r \<mapsto> 1)\<rparr>)"
    by (simp add: get_execution_order_empty_parent)
next
  assume "p \<noteq> []"
  then show "step (Begin r (Some p)) s =
                (Inr (Some (dict_get (run_map s) p 0 + 1)),
                 s\<lparr>parents := (parents s)(r \<mapsto> p),
                   run_map := (run_map s)(p \<mapsto> dict_get (run_map s) p 0 + 1,
                                          r \<mapsto> dict_get (run_map s) p 0 + 1)\<rparr>)"
    by (simp add: get_execution_order_child)
qed

text \<open>
  After \<open>begin(A)\<close> and \<open>begin(B, A)\<close> both entries are 2. The second \<open>begin(B, A)\<close>
  returns 3 and writes 3 for \<open>A\<close> and for \<open>B\<close>.
\<close>

theorem repeated_begin_is_accepted_witness:
  "run_map (exec ([Begin ''A'' None] @ Begin ''B'' (Some ''A'') # []) RunLogger_init) ''B'' = Some 2
   \<and> run_map (exec ([Begin ''A'' None] @ Begin ''B'' (Some ''A'') # []) RunLogger_init) ''A'' = Some 2
   \<and> ''A'' \<noteq> []
   \<and> step (Begin ''B'' (Some ''A''))
        (exec ([Begin ''A'' None] @ Begin ''B'' (Some ''A'') # []) RunLogger_init)
     = (Inr (Some 3),
        (exec ([Begin ''A'' None] @ Begin ''B'' (Some ''A'') # []) RunLogger_init)
          \<lparr>parents := (parents (exec ([Begin ''A'' None] @ Begin ''B'' (Some ''A'') # []) RunLogger_init))
                        (''B'' \<mapsto> ''A''),
           run_map := (run_map (exec ([Begin ''A'' None] @ Begin ''B'' (Some ''A'') # []) RunLogger_init))
                        (''A'' \<mapsto> 3, ''B'' \<mapsto> 3)\<rparr>)"
  using repeated_begin_is_accepted
    [of "exec ([Begin ''A'' None] @ Begin ''B'' (Some ''A'') # []) RunLogger_init"
        "[Begin ''A'' None]" "''B''" "Some ''A''" "[]" RunLogger_init "''A''"]
  by (simp add: RunLogger_init_def get_execution_order_def store_order_def dict_get_def Let_def)

text \<open>
  \<open>B\<close> is begun twice under \<open>A\<close>: the second call returns 3 instead of raising, and the
  stored order of \<open>B\<close> goes from 2 to 3.
\<close>

theorem repeated_begin_counterexample:
  "outcomes [Begin ''A'' None, Begin ''B'' (Some ''A''), Begin ''B'' (Some ''A'')] RunLogger_init
     = [Inr (Some 1), Inr (Some 2), Inr (Some 3)]
   \<and> run_map (exec [Begin ''A'' None, Begin ''B'' (Some ''A'')] RunLogger_init) ''B'' = Some 2
   \<and> run_map (exec [Begin ''A'' None, Begin ''B'' (Some ''A''), Begin ''B'' (Some ''A'')] RunLogger_init) ''B''
       = Some 3"
  by (simp add: RunLogger_init_def get_execution_order_def store_order_def dict_get_def Let_def)

text \<open>
  C6, as amended. The only check of \<^verbatim>\<open>_update_execution_order\<close> is the lookup of the run
  id in the counter table, and a begin call writes an entry for its parent as well as for
  its run id. What holds: for a run id that no earlier begin call received, neither as
  run id nor as parent, the end call raises \<^verbatim>\<open>KeyError\<close> for that id and leaves the
  logger unchanged.
\<close>

theorem end_of_unmentioned_id_raises:
  assumes "list_all (\<lambda>c. \<not> mentions r c) ops"
  shows "step (End r) (exec ops RunLogger_init) = (Inl (KeyError r), exec ops RunLogger_init)"
proof -
  have "run_map RunLogger_init r = None"
    by (simp add: RunLogger_init_def)
  then have "run_map (exec ops RunLogger_init) r = None"
    using assms by (rule run_map_absent_exec)
  then show ?thesis
    by (simp add: update_execution_order_def)
qed

theorem end_of_unmentioned_id_raises_witness:
  "list_all (\<lambda>c. \<not> mentions ''Z'' c) [Begin ''A'' None, Begin ''B'' (Some ''A''), End ''B'']
   \<and> step (End ''Z'') (exec [Begin ''A'' None, Begin ''B'' (Some ''A''), End ''B''] RunLogger_init)
       = (Inl (KeyError ''Z''), exec [Begin ''A'' None, Begin ''B'' (Some ''A''), End ''B''] RunLogger_init)"
  using end_of_unmentioned_id_raises [of "''Z''" "[Begin ''A'' None, Begin ''B'' (Some ''A''), End ''B'']"]
  by simp

text \<open>
  \<open>A\<close> is never begun, only named as the parent of \<open>B\<close>; that gives \<open>A\<close> a counter entry,
  and the end call on \<open>A\<close> returns normally.
\<close>

theorem end_of_never_begun_id_counterexample:
  "\<not> begins ''A'' (Begin ''B'' (Some ''A''))
   \<and> outcomes [Begin ''B'' (Some ''A''), End ''A''] RunLogger_init = [Inr (Some 1), Inr None]"
  by (simp add: RunLogger_init_def get_execution_order_def update_execution_order_def
      store_order_def dict_get_def Let_def)

text \<open>
  C7, as amended. The code does not remember that a run was ended; the first end call
  removes the parent link and keeps the counter entry. What holds: after an end call on a
  run id has returned normally, a further end call on that id, with no begin of that id
  in between, returns normally too and leaves the logger exactly as it was.
\<close>

theorem second_end_is_silent_noop:
  assumes "fst (step (End r) s) = Inr None" and "list_all (\<lambda>c. \<not> begins r c) mid"
  shows "step (End r) (exec mid (snd (step (End r) s))) = (Inr None, exec mid (snd (step (End r) s)))"
proof -
  let ?s1 = "snd (step (End r) s)"
  from assms(1) obtain e where e: "run_map s r = Some e"
    by (auto simp add: update_execution_order_def Let_def split: option.splits)
  then have "run_map ?s1 r \<noteq> None"
    using run_map_present_step [of s r "End r"] by simp
  then have present: "run_map (exec mid ?s1) r \<noteq> None"
    by (rule run_map_present_exec)
  have "parents ?s1 r = None"
    using e unfolding snd_step_End by (simp add: parents_end)
  then have "parents (exec mid ?s1) r = None"
    using assms(2) by (rule parents_none_exec)
  with present show ?thesis
    by (auto simp add: update_no_parent)
qed

theorem second_end_is_silent_noop_witness:
  "fst (step (End ''B'') (exec [Begin ''A'' None, Begin ''B'' (Some ''A'')] RunLogger_init)) = Inr None
   \<and> list_all (\<lambda>c. \<not> begins ''B'' c) [Begin ''C'' (Some ''A'')]
   \<and> step (End ''B'')
        (exec [Begin ''C'' (Some ''A'')]
           (snd (step (End ''B'') (exec [Begin ''A'' None, Begin ''B'' (Some ''A'')] RunLogger_init))))
     = (Inr None,
        exec [Begin ''C'' (Some ''A'')]
          (snd (step (End ''B'') (exec [Begin ''A'' None, Begin ''B'' (Some ''A'')] RunLogger_init))))"
  using second_end_is_silent_noop
    [of "''B''" "exec [Begin ''A'' None, Begin ''B'' (Some ''A'')] RunLogger_init"
        "[Begin ''C'' (Some ''A'')]"]
  by (simp add: RunLogger_init_def get_execution_order_def update_execution_order_def
      store_order_def dict_get_def Let_def)

text \<open>\<open>B\<close> is ended twice in a row: both end calls return normally.\<close>

theorem second_end_counterexample:
  "outcomes [Begin ''A'' None, Begin ''B'' (Some ''A''), End ''B'', End ''B''] RunLogger_init
     = [Inr (Some 1), Inr (Some 2), Inr None, Inr None]"
  by (simp add: RunLogger_init_def get_execution_order_def update_execution_order_def
      store_order_def dict_get_def Let_def)

text \<open>
  C9. A begin or end call changes the counter table at most at the run id of the call and
  at its direct parent (the parent passed to begin, the parent recorded for the run at
  end): the stored order of every other run id is the same before and after the call.
\<close>

theorem call_touches_own_and_parent_entry_only:
  assumes "x \<noteq> call_run_id c" and "direct_parent s c \<noteq> Some x"
  shows "run_map (snd (step c s)) x = run_map s x"
  using assms by (rule run_map_step_frame)

text \<open>
  \<open>B\<close> under \<open>A\<close> and \<open>C\<close> under \<open>D\<close> are two independent parents; ending \<open>B\<close> leaves the
  stored order of \<open>C\<close> at 1.
\<close>

theorem call_touches_own_and_parent_entry_only_witness:
  "''C'' \<noteq> call_run_id (End ''B'')
   \<and> direct_parent
        (exec [Begin ''A'' None, Begin ''B'' (Some ''A''), Begin ''C'' (Some ''D'')] RunLogger_init)
        (End ''B'') \<noteq> Some ''C''
   \<and> run_map (snd (step (End ''B'')
        (exec [Begin ''A'' None, Begin ''B'' (Some ''A''), Begin ''C'' (Some ''D'')] RunLogger_init))) ''C''
      = run_map (exec [Begin ''A'' None, Begin ''B'' (Some ''A''), Begin ''C'' (Some ''D'')] RunLogger_init) ''C''
   \<and> run_map (exec [Begin ''A'' None, Begin ''B'' (Some ''A''), Begin ''C'' (Some ''D'')] RunLogger_init) ''C''
      = Some 1"
  using call_touches_own_and_parent_entry_only
    [of "''C''" "End ''B''"
        "exec [Begin ''A'' None, Begin ''B'' (Some ''A''), Begin ''C'' (Some ''D'')] RunLogger_init"]
  by (simp add: RunLogger_init_def get_execution_order_def update_execution_order_def
      store_order_def dict_get_def Let_def)

text \<open>
  C10, as amended. The claim fails for the empty string as parent, which the code treats
  as no parent, and when the parent id is begun again before the child, which overwrites
  its entry. What holds: when \<open>parent\<close>, a non-empty id, is begun and, with no further
  begin of \<open>parent\<close> in between, \<open>child\<close> is begun under it, the order returned for \<open>child\<close>
  is strictly greater than the order returned for \<open>parent\<close>: the begin of \<open>parent\<close> stores
  its order as the entry of \<open>parent\<close>, later calls only raise that entry, and \<open>child\<close> gets
  the entry plus one.
\<close>

theorem child_order_exceeds_parent_order:
  assumes "parent \<noteq> []" and "list_all (\<lambda>c. \<not> begins parent c) mid"
  shows "fst (get_execution_order s parent grandparent)
           < fst (get_execution_order
                   (exec mid (snd (get_execution_order s parent grandparent))) child (Some parent))"
proof -
  let ?s1 = "snd (get_execution_order s parent grandparent)"
  have "fst (get_execution_order s parent grandparent) = dict_get (run_map ?s1) parent 0"
    by (simp add: counter_after_begin)
  also have "\<dots> < fst (get_execution_order (exec mid ?s1) child (Some parent))"
    using assms by (rule order_after_mid)
  finally show ?thesis .
qed

text \<open>
  The root \<open>A\<close> gets 1; \<open>B\<close> under \<open>A\<close> and \<open>C\<close> under \<open>B\<close> are begun and ended; then \<open>E\<close>
  under \<open>A\<close> gets 4.
\<close>

theorem child_order_exceeds_parent_order_witness:
  "''A'' \<noteq> []
   \<and> list_all (\<lambda>c. \<not> begins ''A'' c)
        [Begin ''B'' (Some ''A''), Begin ''C'' (Some ''B''), End ''C'', End ''B'']
   \<and> fst (get_execution_order RunLogger_init ''A'' None) = 1
   \<and> fst (get_execution_order
            (exec [Begin ''B'' (Some ''A''), Begin ''C'' (Some ''B''), End ''C'', End ''B'']
               (snd (get_execution_order RunLogger_init ''A'' None)))
            ''E'' (Some ''A'')) = 4"
  using child_order_exceeds_parent_order
    [of "''A''" "[Begin ''B'' (Some ''A''), Begin ''C'' (Some ''B''), End ''C'', End ''B'']"
        RunLogger_init None "''E''"]
  by (simp add: RunLogger_init_def get_execution_order_def update_execution_order_def
      store_order_def dict_get_def Let_def)

text \<open>
  The empty id is begun and then passed as parent: parent and child both get 1. And \<open>P\<close>
  is begun under \<open>A\<close> with order 4, then begun again as a root, which sets its entry to 1:
  the child \<open>K\<close> of \<open>P\<close> gets 2, less than 4.
\<close>

theorem child_order_counterexample:
  "outcomes [Begin [] None, Begin ''C'' (Some [])] RunLogger_init = [Inr (Some 1), Inr (Some 1)]
   \<and> outcomes
        [Begin ''A'' None, Begin ''B'' (Some ''A''), Begin ''C'' (Some ''A''), Begin ''P'' (Some ''A''),
         Begin ''P'' None, Begin ''K'' (Some ''P'')]
        RunLogger_init
      = [Inr (Some 1), Inr (Some 2), Inr (Some 3), Inr (Some 4), Inr (Some 1), Inr (Some 2)]"
  by (simp add: RunLogger_init_def get_execution_order_def store_order_def dict_get_def Let_def)

end
